theory Spec2Isabelle
  imports Complex_Main "HOL-Library.Word" "HOL-Library.Log_Nat" "HOL-Library.Signed_Division"
begin

unbundle bit_operations_syntax

section \<open>Machine types\<close>

text \<open>
  The sketch runs on an ESP32-S3: \<open>int\<close> and \<open>long\<close> are 32 bits wide, the
  byte order is little-endian, \<open>float\<close> is IEEE binary32 and \<open>lv_coord_t\<close> is
  \<open>int16_t\<close>. Signed integers are words read through \<open>sint\<close>.
\<close>

type_synonym uint8_t = "8 word"
type_synonym uint32_t = "32 word"
type_synonym int32_t = "32 word"
type_synonym lv_coord_t = "16 word"
type_synonym lv_point_t = "lv_coord_t \<times> lv_coord_t"

section \<open>Color schemes\<close>

record ColorScheme =
  bg :: uint32_t
  gauge_lime :: uint32_t
  scale_text :: uint32_t
  inner_start :: uint32_t
  inner_end :: uint32_t
  needle :: uint32_t
  hub_fill :: uint32_t
  hub_border :: uint32_t
  rpm_text :: uint32_t
  brand_text :: uint32_t

definition color_schemes :: "ColorScheme list" where
  "color_schemes =
   [\<lparr>bg = 0x000000, gauge_lime = 0xB7FF00, scale_text = 0x99CF11,
     inner_start = 0x222222, inner_end = 0x000000, needle = 0xFF3B30,
     hub_fill = 0x111111, hub_border = 0xB7FF00, rpm_text = 0x6C7780,
     brand_text = 0x8F8988\<rparr>,
    \<lparr>bg = 0x101010, gauge_lime = 0xFFFFFF, scale_text = 0xFF3B30,
     inner_start = 0x444444, inner_end = 0x111111, needle = 0x8F8988,
     hub_fill = 0x000000, hub_border = 0xFFFFFF, rpm_text = 0xFFFFFF,
     brand_text = 0x8F8988F\<rparr>,
    \<lparr>bg = 0x000000, gauge_lime = 0x00E0FF, scale_text = 0x00E0FF,
     inner_start = 0x003344, inner_end = 0x000000, needle = 0xFFC800,
     hub_fill = 0x000000, hub_border = 0x00E0FF, rpm_text = 0x00E0FF,
     brand_text = 0x8F8988\<rparr>]"

text \<open>The ten fields of a scheme, in declaration order.\<close>

definition scheme_colors :: "ColorScheme \<Rightarrow> uint32_t list" where
  "scheme_colors cs =
   [bg cs, gauge_lime cs, scale_text cs, inner_start cs, inner_end cs,
    needle cs, hub_fill cs, hub_border cs, rpm_text cs, brand_text cs]"


section \<open>Binary32 arithmetic\<close>

text \<open>
  A finite \<open>float\<close> is the real number it denotes. Every arithmetic operation
  computes the exact result and rounds it to the nearest binary32 number, ties to
  the even significand: 24 significant bits, and a spacing of \<open>2 powi - 149\<close> in
  the subnormal range. \<open>ilog2 x\<close> is the binary exponent of a positive \<open>x\<close>.
  The magnitudes that occur in this program stay far below \<open>2 ^ 128\<close>, so the
  overflow to infinity is not part of the model; each expression is rounded on its
  own, without fused multiply-add.
\<close>

definition ilog2 :: "real \<Rightarrow> int" where
  "ilog2 x = (if 1 \<le> x then bitlen \<lfloor>x\<rfloor> - 1 else - bitlen (\<lceil>1 / x\<rceil> - 1))"

definition rne :: "real \<Rightarrow> int" where
  "rne y = (let f = \<lfloor>y\<rfloor>; r = y - of_int f
            in if r < 1 / 2 then f
               else if 1 / 2 < r then f + 1
               else if even f then f else f + 1)"

definition float_exp :: "real \<Rightarrow> int" where
  "float_exp x = max (ilog2 \<bar>x\<bar> - 23) (- 149)"

definition fl :: "real \<Rightarrow> real" where
  "fl x = (if x = 0 then 0
           else let e = float_exp x in of_int (rne (x / 2 powi e)) * 2 powi e)"

definition fadd :: "real \<Rightarrow> real \<Rightarrow> real" where
  "fadd a b = fl (a + b)"

definition fsub :: "real \<Rightarrow> real \<Rightarrow> real" where
  "fsub a b = fl (a - b)"

definition fmul :: "real \<Rightarrow> real \<Rightarrow> real" where
  "fmul a b = fl (a * b)"

definition fdiv :: "real \<Rightarrow> real \<Rightarrow> real" where
  "fdiv a b = fl (a / b)"

text \<open>
  The conversion \<open>(float)n\<close> of an integer. A decimal literal with suffix \<open>f\<close>
  is the rounded decimal, as in \<open>fl (20 / 100)\<close> for \<open>0.20f\<close>.
\<close>

definition float_of_int :: "int \<Rightarrow> real" where
  "float_of_int n = fl (of_int n)"

text \<open>
  The conversion of a \<open>float\<close> to \<open>lv_coord_t\<close> drops the fraction (towards
  zero). C leaves a result outside the range of \<open>int16_t\<close> undefined; the model
  keeps the low 16 bits, as the narrowing store of the target does.
\<close>

definition coord_of_float :: "real \<Rightarrow> lv_coord_t" where
  "coord_of_float v = word_of_int (if 0 \<le> v then \<lfloor>v\<rfloor> else \<lceil>v\<rceil>)"

text \<open>Division of two \<open>lv_coord_t\<close> values: promoted to \<open>int\<close>, truncating.\<close>

definition coord_div :: "lv_coord_t \<Rightarrow> int \<Rightarrow> lv_coord_t" where
  "coord_div a b = word_of_int (sint a sdiv b)"

section \<open>Gauge parameters\<close>

definition M_PI :: real where
  "M_PI = 3.14159265358979323846"

definition RPM_MIN :: int32_t where
  "RPM_MIN = 0"

definition RPM_MAX :: int32_t where
  "RPM_MAX = 8000"

definition SCALE_MIN :: int32_t where
  "SCALE_MIN = 0"

definition SCALE_MAX :: int32_t where
  "SCALE_MAX = 8"

definition GAUGE_START_DEG :: int where
  "GAUGE_START_DEG = 135"

definition GAUGE_SWEEP_DEG :: int where
  "GAUGE_SWEEP_DEG = 270"

definition NEEDLE_INNER_RATIO :: real where
  "NEEDLE_INNER_RATIO = fl (20 / 100)"

definition NEEDLE_OUTER_RATIO :: real where
  "NEEDLE_OUTER_RATIO = fl (75 / 100)"

definition NEEDLE_WIDTH :: int where
  "NEEDLE_WIDTH = 6"

definition ARC_WIDTH :: int where
  "ARC_WIDTH = 14"

section \<open>Needle geometry\<close>

text \<open>
  \<open>update_needle\<close>, lines 149 to 174, cut into the values it computes one after the
  other. \<open>clamp_rpm\<close> is the pair of tests on \<open>rpm\<close>; every later value starts
  from the clamped measurement.
\<close>

definition clamp_rpm :: "int32_t \<Rightarrow> int32_t" where
  "clamp_rpm rpm0 =
     (let rpm = (if rpm0 <s RPM_MIN then RPM_MIN else rpm0);
          rpm = (if RPM_MAX <s rpm then RPM_MAX else rpm)
      in rpm)"

definition needle_scale_val :: "int32_t \<Rightarrow> real" where
  "needle_scale_val rpm0 =
     (let rpm = clamp_rpm rpm0;
          scale_val = fdiv (float_of_int (sint rpm)) 1000;
          scale_val = (if scale_val < float_of_int (sint SCALE_MIN)
                       then float_of_int (sint SCALE_MIN) else scale_val);
          scale_val = (if float_of_int (sint SCALE_MAX) < scale_val
                       then float_of_int (sint SCALE_MAX) else scale_val)
      in scale_val)"

definition needle_t :: "int32_t \<Rightarrow> real" where
  "needle_t rpm0 =
     fdiv (fsub (needle_scale_val rpm0) (float_of_int (sint SCALE_MIN)))
          (float_of_int (sint (SCALE_MAX - SCALE_MIN)))"

definition needle_angle_deg :: "int32_t \<Rightarrow> real" where
  "needle_angle_deg rpm0 =
     fadd (float_of_int GAUGE_START_DEG) (fmul (needle_t rpm0) (float_of_int GAUGE_SWEEP_DEG))"

definition needle_angle_rad :: "int32_t \<Rightarrow> real" where
  "needle_angle_rad rpm0 = fdiv (fmul (needle_angle_deg rpm0) (fl M_PI)) 180"

text \<open>
  The radii, from the width of the meter object: \<open>meter_radius\<close>, then
  \<open>outer_r\<close> before it is rescaled, \<open>inner_r\<close>, and \<open>outer_r\<close> after
  \<open>outer_r *= NEEDLE_OUTER_RATIO\<close>.
\<close>

definition needle_base_r :: "lv_coord_t \<Rightarrow> real" where
  "needle_base_r width =
     (let meter_radius = coord_div width 2
      in fsub (float_of_int (sint meter_radius)) (fmul (float_of_int ARC_WIDTH) (fl (5 / 10))))"

definition needle_radii :: "lv_coord_t \<Rightarrow> real \<times> real" where
  "needle_radii width =
     (let outer_r = needle_base_r width;
          inner_r = fmul outer_r NEEDLE_INNER_RATIO;
          outer_r = fmul outer_r NEEDLE_OUTER_RATIO
      in (inner_r, outer_r))"

text \<open>
  The display resolution and the two functions of the C library are given by the
  platform.
\<close>

record platform =
  hor_res :: lv_coord_t
  ver_res :: lv_coord_t
  cosf :: "real \<Rightarrow> real"
  sinf :: "real \<Rightarrow> real"

definition needle_segment :: "platform \<Rightarrow> int32_t \<Rightarrow> lv_coord_t \<Rightarrow> lv_point_t \<times> lv_point_t" where
  "needle_segment pf rpm0 width =
     (let angle_rad = needle_angle_rad rpm0;
          dw = hor_res pf;
          dh = ver_res pf;
          cx = coord_div dw 2;
          cy = coord_div dh 2;
          (inner_r, outer_r) = needle_radii width
      in ((coord_of_float (fadd (float_of_int (sint cx)) (fmul (cosf pf angle_rad) inner_r)),
           coord_of_float (fadd (float_of_int (sint cy)) (fmul (sinf pf angle_rad) inner_r))),
          (coord_of_float (fadd (float_of_int (sint cx)) (fmul (cosf pf angle_rad) outer_r)),
           coord_of_float (fadd (float_of_int (sint cy)) (fmul (sinf pf angle_rad) outer_r)))))"


section \<open>LVGL objects and the globals of the sketch\<close>

text \<open>
  The objects that \<open>Lvgl_CreateRpmGauge\<close> creates, with the attributes it sets
  (fonts and alignment are left out). A color is the \<open>0xRRGGBB\<close> value handed to
  \<open>lv_color_hex\<close>. The symbolic constants of \<open>lvgl.h\<close> are constructors.
  \<open>lv_obj_get_width\<close> of the meter reads \<open>meter_width\<close>, the width that
  \<open>lv_obj_set_size\<close> has set.
\<close>

datatype lv_opa_t = LV_OPA_TRANSP | LV_OPA_50 | LV_OPA_COVER

datatype lv_event_code_t = LV_EVENT_PRESSED | LV_EVENT_CLICKED | LV_EVENT_RELEASED

record lv_meter =
  meter_width :: lv_coord_t
  meter_height :: lv_coord_t
  meter_bg_opa :: lv_opa_t
  meter_border_width :: int
  meter_text_color :: uint32_t
  scale_range :: "int \<times> int \<times> int \<times> int"
  scale_ticks :: "int \<times> int \<times> int \<times> uint32_t"
  scale_major_ticks :: "int \<times> int \<times> int \<times> uint32_t \<times> int"
  outer_arc :: "int \<times> uint32_t \<times> int \<times> int"
  inner_ring :: "uint32_t \<times> uint32_t \<times> int \<times> int"

record lv_line =
  line_width :: int
  line_color :: uint32_t
  line_opa :: lv_opa_t
  line_points :: "lv_point_t \<times> lv_point_t"

record lv_hub =
  hub_size :: "int \<times> int"
  hub_bg_color :: uint32_t
  hub_border_width :: int
  hub_border_color :: uint32_t

record lv_label =
  label_text :: string
  label_text_color :: uint32_t

text \<open>
  The globals of the sketch, the children of the active screen that only a local
  variable names (\<open>hub\<close>, \<open>touch_btn\<close>), and the timers that LVGL runs: each live
  timer is a handle with its period in milliseconds, and \<open>lv_timer_fresh\<close> is the
  next handle to hand out. A pointer is \<open>None\<close> when it is \<open>NULL\<close>.
\<close>

record gstate =
  current_scheme :: int
  rpm_timer :: "nat option"
  rpm_value :: int32_t
  rpm_meter :: "lv_meter option"
  needle_line :: "lv_line option"
  needle_points :: "lv_point_t \<times> lv_point_t"
  rpm_label :: "lv_label option"
  rpm_unit_label :: "lv_label option"
  scr_bg_color :: uint32_t
  scr_bg_opa :: lv_opa_t
  scr_hub :: "lv_hub option"
  scr_touch_btn :: "lv_event_code_t option"
  lv_timers :: "(nat \<times> nat) list"
  lv_timer_fresh :: nat

definition init_state :: gstate where
  "init_state =
     \<lparr>current_scheme = 0, rpm_timer = None, rpm_value = 0, rpm_meter = None,
      needle_line = None, needle_points = ((0, 0), (0, 0)), rpm_label = None,
      rpm_unit_label = None, scr_bg_color = 0, scr_bg_opa = LV_OPA_TRANSP, scr_hub = None,
      scr_touch_btn = None, lv_timers = [], lv_timer_fresh = 0\<rparr>"

text \<open>
  Modelled from the spec: the periodic timer facility of LVGL, which is not part of
  the sketch: create a timer with a period, and destroy a timer by its handle.
\<close>

definition lv_timer_create :: "nat \<Rightarrow> gstate \<Rightarrow> nat \<times> gstate" where
  "lv_timer_create period s =
     (lv_timer_fresh s,
      s\<lparr>lv_timers := lv_timers s @ [(lv_timer_fresh s, period)],
        lv_timer_fresh := Suc (lv_timer_fresh s)\<rparr>)"

definition lv_timer_del :: "nat \<Rightarrow> gstate \<Rightarrow> gstate" where
  "lv_timer_del h s = s\<lparr>lv_timers := filter (\<lambda>t. fst t \<noteq> h) (lv_timers s)\<rparr>"

section \<open>Needle update and timer callback\<close>

definition update_needle :: "platform \<Rightarrow> int32_t \<Rightarrow> gstate \<Rightarrow> gstate" where
  "update_needle pf rpm s =
     (case (rpm_meter s, needle_line s) of
        (Some meter, Some line) \<Rightarrow>
          (let pts = needle_segment pf rpm (meter_width meter)
           in s\<lparr>needle_points := pts, needle_line := Some (line\<lparr>line_points := pts\<rparr>)\<rparr>)
      | _ \<Rightarrow> s)"

text \<open>
  The text that \<open>%ld\<close> prints for a \<open>long\<close>: at most eleven characters, which
  fit the buffer of sixteen.
\<close>

definition digit_char :: "nat \<Rightarrow> char" where
  "digit_char d = ''0123456789'' ! d"

fun dec_digits :: "nat \<Rightarrow> string" where
  "dec_digits n =
     (if n < 10 then [digit_char n] else dec_digits (n div 10) @ [digit_char (n mod 10)])"

definition dec_string :: "int \<Rightarrow> string" where
  "dec_string i = (if i < 0 then CHR ''-'' # dec_digits (nat (- i)) else dec_digits (nat i))"

definition rpm_timer_cb :: "platform \<Rightarrow> gstate \<Rightarrow> gstate" where
  "rpm_timer_cb pf s =
     (let rpm = rpm_value s;
          s = update_needle pf rpm s
      in case rpm_label s of
           Some label \<Rightarrow> s\<lparr>rpm_label := Some (label\<lparr>label_text := dec_string (sint rpm)\<rparr>)\<rparr>
         | None \<Rightarrow> s)"

section \<open>Gauge creation and touch callback\<close>

text \<open>
  \<open>lv_obj_clean\<close> deletes the children of the screen; the globals that pointed to
  them are assigned anew before they are read. The scheme is read at
  \<open>current_scheme\<close>, which C leaves undefined outside the table; the cursor is
  shown below to stay inside it.
\<close>

definition Lvgl_CreateRpmGauge :: "platform \<Rightarrow> gstate \<Rightarrow> gstate" where
  "Lvgl_CreateRpmGauge pf s0 =
     (let s = s0\<lparr>scr_hub := None, scr_touch_btn := None\<rparr>;
          cs = color_schemes ! nat (current_scheme s);
          s = s\<lparr>scr_bg_color := bg cs, scr_bg_opa := LV_OPA_COVER\<rparr>;
          s = s\<lparr>rpm_meter := Some
                \<lparr>meter_width = 370, meter_height = 370,
                 meter_bg_opa = LV_OPA_TRANSP, meter_border_width = 0,
                 meter_text_color = scale_text cs,
                 scale_range = (sint SCALE_MIN, sint SCALE_MAX, GAUGE_SWEEP_DEG, GAUGE_START_DEG),
                 scale_ticks = (41, 2, 10, gauge_lime cs),
                 scale_major_ticks = (5, 4, 20, gauge_lime cs, 13),
                 outer_arc = (ARC_WIDTH, gauge_lime cs, sint SCALE_MIN, sint SCALE_MAX),
                 inner_ring = (inner_start cs, inner_end cs, sint SCALE_MIN, sint SCALE_MAX)\<rparr>\<rparr>;
          s = s\<lparr>needle_line := Some
                \<lparr>line_width = NEEDLE_WIDTH, line_color = needle cs, line_opa = LV_OPA_50,
                 line_points = needle_points s\<rparr>\<rparr>;
          s = s\<lparr>scr_hub := Some
                \<lparr>hub_size = (26, 26), hub_bg_color = hub_fill cs,
                 hub_border_width = 3, hub_border_color = hub_border cs\<rparr>\<rparr>;
          s = s\<lparr>rpm_label := Some \<lparr>label_text = ''0'', label_text_color = rpm_text cs\<rparr>\<rparr>;
          s = s\<lparr>rpm_unit_label := Some
                \<lparr>label_text = ''RAUH Welt BEGRIFF'', label_text_color = brand_text cs\<rparr>\<rparr>;
          s = s\<lparr>scr_touch_btn := Some LV_EVENT_CLICKED\<rparr>;
          s = update_needle pf (rpm_value s) s;
          s = (case rpm_timer s of
                 Some h \<Rightarrow> (lv_timer_del h s)\<lparr>rpm_timer := None\<rparr>
               | None \<Rightarrow> s);
          (h, s) = lv_timer_create 100 s
      in s\<lparr>rpm_timer := Some h\<rparr>)"

definition touch_color_cycle_cb :: "platform \<Rightarrow> lv_event_code_t \<Rightarrow> gstate \<Rightarrow> gstate" where
  "touch_color_cycle_cb pf code s0 =
     (if code \<noteq> LV_EVENT_CLICKED then s0
      else let s = s0\<lparr>current_scheme := current_scheme s0 + 1\<rparr>;
               s = (if current_scheme s \<ge> int (length color_schemes)
                    then s\<lparr>current_scheme := 0\<rparr> else s)
           in Lvgl_CreateRpmGauge pf s)"

section \<open>ESP-NOW receive callback\<close>

text \<open>
  \<open>len\<close> is the number of bytes at \<open>incomingData\<close>. \<open>memcpy\<close> fills the packed
  \<open>RpmPacket\<close> with the first four of them; the target is little-endian. The
  comparison with \<open>RPM_MAX\<close> is unsigned, since \<open>packet.rpm\<close> is a \<open>uint32_t\<close>,
  and the store into the \<open>int32_t\<close> keeps the bits. The second equation of
  \<open>packet_rpm\<close> is never used: the callback returns before it decodes a payload
  of fewer than four bytes.
\<close>

definition sizeof_RpmPacket :: int where
  "sizeof_RpmPacket = 4"

fun packet_rpm :: "uint8_t list \<Rightarrow> uint32_t" where
  "packet_rpm (b0 # b1 # b2 # b3 # rest) =
     ucast b0 OR push_bit 8 (ucast b1) OR push_bit 16 (ucast b2) OR push_bit 24 (ucast b3)"
| "packet_rpm _ = 0"

definition esp_now_recv_cb :: "uint8_t list \<Rightarrow> gstate \<Rightarrow> gstate" where
  "esp_now_recv_cb incomingData s =
     (let len = int (length incomingData)
      in if len < sizeof_RpmPacket then s
         else let rpm = packet_rpm incomingData
              in if rpm \<le> RPM_MAX then s\<lparr>rpm_value := rpm\<rparr> else s)"

section \<open>Start-up and runs\<close>

text \<open>
  At start-up the sketch registers the receive callback and then builds the gauge
  (\<open>arduino_setup\<close>; the hardware bring-up before it is outside the model).
  Packets that arrive between the two are \<open>early\<close>. Afterwards the sketch only
  reacts: to a packet, to a timer that fires (if it is live), and to an event on the
  touch button (if the button exists and the event is the one the callback was
  registered for). Each callback reads \<open>rpm_value\<close> at most once, so a packet
  that arrives while another callback runs acts as if it came just before or just
  after it.
\<close>

definition arduino_setup :: "platform \<Rightarrow> uint8_t list list \<Rightarrow> gstate" where
  "arduino_setup pf early =
     Lvgl_CreateRpmGauge pf (foldl (\<lambda>s bytes. esp_now_recv_cb bytes s) init_state early)"

datatype event = Packet "uint8_t list" | TimerFires nat | Touch lv_event_code_t

definition step :: "platform \<Rightarrow> gstate \<Rightarrow> event \<Rightarrow> gstate" where
  "step pf s ev =
     (case ev of
        Packet bytes \<Rightarrow> esp_now_recv_cb bytes s
      | TimerFires h \<Rightarrow> (if h \<in> fst ` set (lv_timers s) then rpm_timer_cb pf s else s)
      | Touch code \<Rightarrow> (if scr_touch_btn s = Some code then touch_color_cycle_cb pf code s else s))"

definition run :: "platform \<Rightarrow> gstate \<Rightarrow> event list \<Rightarrow> gstate" where
  "run pf s evs = foldl (step pf) s evs"

text \<open>One tap on the touch surface, as the touch dispatcher sees it.\<close>

definition tap :: "platform \<Rightarrow> gstate \<Rightarrow> gstate" where
  "tap pf s = touch_color_cycle_cb pf LV_EVENT_CLICKED s"

text \<open>
  A platform for the concrete runs below: a display of 360 by 360 pixels and a C
  library whose cosine and sine are correctly rounded.
\<close>

definition example_platform :: platform where
  "example_platform =
     \<lparr>hor_res = 360, ver_res = 360, cosf = (\<lambda>a. fl (cos a)), sinf = (\<lambda>a. fl (sin a))\<rparr>"

section \<open>State predicates\<close>

text \<open>
  The live timers are exactly the one that \<open>rpm_timer\<close> points to, if any; it
  has a period of 100 ms and its handle is older than the next fresh one.
\<close>

definition timer_inv :: "gstate \<Rightarrow> bool" where
  "timer_inv s =
     (case rpm_timer s of
        None \<Rightarrow> lv_timers s = []
      | Some h \<Rightarrow> lv_timers s = [(h, 100)] \<and> h < lv_timer_fresh s)"


section \<open>Properties of the binary32 rounding\<close>

lemma ilog2_ge1:
  assumes "1 \<le> x"
  shows "2 powi (ilog2 x) \<le> x \<and> x < 2 powi (ilog2 x + 1)"
proof -
  let ?n = "\<lfloor>x\<rfloor>"
  have n: "0 < ?n" using assms by linarith
  have b1: "1 \<le> bitlen ?n" using n by (simp add: bitlen_alt_def)
  from bitlen_bounds[OF n] have lo: "2 ^ nat (bitlen ?n - 1) \<le> ?n" and hi: "?n < 2 ^ nat (bitlen ?n)"
    by auto
  have "(2::real) ^ nat (bitlen ?n - 1) \<le> of_int ?n"
    using lo by (metis of_int_le_iff of_int_numeral of_int_power)
  also have "\<dots> \<le> x" by simp
  finally have A: "(2::real) powi (bitlen ?n - 1) \<le> x"
    using b1 by (simp add: power_int_def)
  have "?n + 1 \<le> 2 ^ nat (bitlen ?n)" using hi by simp
  then have "of_int (?n + 1) \<le> (2::real) ^ nat (bitlen ?n)"
    by (metis of_int_le_iff of_int_numeral of_int_power)
  moreover have "x < of_int ?n + 1" by linarith
  ultimately have "x < (2::real) ^ nat (bitlen ?n)" by linarith
  then have B: "x < (2::real) powi (bitlen ?n)"
    using b1 by (simp add: power_int_def)
  show ?thesis using A B assms by (simp add: ilog2_def)
qed


lemma ilog2_lt1:
  assumes "0 < x" "x < 1"
  shows "2 powi (ilog2 x) \<le> x \<and> x < 2 powi (ilog2 x + 1)"
proof -
  let ?c = "\<lceil>1 / x\<rceil>"
  have inv: "1 < 1 / x" using assms by simp
  then have c2: "2 \<le> ?c" by linarith
  let ?m = "?c - 1"
  have m: "0 < ?m" using c2 by simp
  let ?k = "bitlen ?m"
  have k1: "1 \<le> ?k" using m by (simp add: bitlen_alt_def)
  from bitlen_bounds[OF m] have lo: "2 ^ nat (?k - 1) \<le> ?m" and hi: "?m < 2 ^ nat ?k"
    by auto
  have "?c \<le> 2 ^ nat ?k" using hi by simp
  then have "of_int ?c \<le> (2::real) ^ nat ?k"
    by (metis of_int_le_iff of_int_numeral of_int_power)
  moreover have "1 / x \<le> of_int ?c" by linarith
  ultimately have "1 / x \<le> (2::real) ^ nat ?k" by linarith
  then have "1 \<le> (2::real) ^ nat ?k * x" using assms by (simp add: field_simps)
  then have A: "(2::real) powi (- ?k) \<le> x"
    using k1 by (simp add: power_int_def field_simps power_inverse)
  have "(2::real) ^ nat (?k - 1) \<le> of_int ?m"
    using lo by (metis of_int_le_iff of_int_numeral of_int_power)
  moreover have "of_int ?m < 1 / x" by linarith
  ultimately have "(2::real) ^ nat (?k - 1) < 1 / x" by linarith
  then have "(2::real) ^ nat (?k - 1) * x < 1" using assms by (simp add: field_simps)
  then have "x < 1 / (2::real) ^ nat (?k - 1)" by (simp add: field_simps)
  moreover have "(2::real) powi (- ?k + 1) = 1 / 2 ^ nat (?k - 1)"
    using power_int_minus_divide [of "2::real" "?k - 1"] k1 by (simp add: power_int_def)
  ultimately have B: "x < (2::real) powi (- ?k + 1)" by simp
  show ?thesis using A B assms by (simp add: ilog2_def)
qed

lemma ilog2_bounds:
  "0 < x \<Longrightarrow> 2 powi (ilog2 x) \<le> x \<and> x < 2 powi (ilog2 x + 1)"
  using ilog2_ge1 [of x] ilog2_lt1 [of x] by (cases "1 \<le> x") auto


lemma pow2_less_exp: "(2::real) powi a < 2 powi b \<Longrightarrow> a < b"
  using power_int_increasing [of b a "2::real"] by (cases "a < b") auto

lemma ilog2_less: "0 < x \<Longrightarrow> x < 2 powi k \<Longrightarrow> ilog2 x < k"
  using ilog2_bounds [of x] pow2_less_exp [of "ilog2 x" k] by linarith

lemma ilog2_ge: "0 < x \<Longrightarrow> 2 powi k \<le> x \<Longrightarrow> k \<le> ilog2 x"
  using ilog2_bounds [of x] pow2_less_exp [of k "ilog2 x + 1"] by linarith

lemma ilog2_unique: "0 < x \<Longrightarrow> 2 powi k \<le> x \<Longrightarrow> x < 2 powi (k + 1) \<Longrightarrow> ilog2 x = k"
  using ilog2_less [of x "k + 1"] ilog2_ge [of x k] by linarith

lemma rne_of_int: "rne (of_int n) = n"
  by (simp add: rne_def)

lemma rne_floor_le: "\<lfloor>y\<rfloor> \<le> rne y"
  by (simp add: rne_def Let_def)

lemma rne_le_ceiling: "rne y \<le> \<lceil>y\<rceil>"
proof -
  have "y - of_int \<lfloor>y\<rfloor> \<noteq> 0 \<Longrightarrow> \<lfloor>y\<rfloor> + 1 \<le> \<lceil>y\<rceil>" by linarith
  moreover have "\<lfloor>y\<rfloor> \<le> \<lceil>y\<rceil>" by linarith
  ultimately show ?thesis by (auto simp: rne_def Let_def)
qed

lemma rne_le: "y \<le> of_int N \<Longrightarrow> rne y \<le> N"
  using rne_le_ceiling [of y] by (meson ceiling_le order_trans)

lemma rne_ge: "of_int N \<le> y \<Longrightarrow> N \<le> rne y"
  using rne_floor_le [of y] by (meson le_floor_iff order_trans)


lemma fl_0: "fl 0 = 0"
  by (simp add: fl_def)

lemma pow2_split: "e' \<le> e \<Longrightarrow> (2::real) powi e = 2 ^ nat (e - e') * 2 powi e'"
  using power_int_add [of "2::real" "e - e'" e'] by (simp add: power_int_def)

lemma pow2_quot: "e' \<le> e \<Longrightarrow> a * (2::real) powi e / 2 powi e' = a * 2 ^ nat (e - e')"
  by (simp add: pow2_split [of e' e])

lemma fl_integral:
  assumes "x / 2 powi float_exp x = of_int m"
  shows "fl x = x"
proof (cases "x = 0")
  case True
  then show ?thesis by (simp add: fl_def)
next
  case False
  have "of_int (rne (x / 2 powi float_exp x)) * 2 powi float_exp x = x"
    unfolding assms rne_of_int using assms [symmetric] by simp
  then show ?thesis using False by (simp add: fl_def Let_def)
qed

lemma float_exp_le:
  assumes "x \<noteq> 0" "\<bar>x\<bar> < 2 powi (e + 24)" "- 149 \<le> e"
  shows "float_exp x \<le> e"
  using ilog2_less [of "\<bar>x\<bar>" "e + 24"] assms by (simp add: float_exp_def)

lemma fl_exact_lt:
  assumes "\<bar>n\<bar> < 2 ^ 24" "- 149 \<le> e"
  shows "fl (of_int n * 2 powi e) = of_int n * 2 powi e"
proof (cases "n = 0")
  case True
  then show ?thesis by (simp add: fl_def)
next
  case False
  let ?x = "real_of_int n * 2 powi e"
  have nz: "?x \<noteq> 0" using False by simp
  have "\<bar>real_of_int n\<bar> < 2 ^ 24"
    using assms(1) by (metis of_int_abs of_int_less_iff of_int_numeral of_int_power)
  then have "\<bar>?x\<bar> < 2 ^ 24 * 2 powi e"
    by (simp add: abs_mult)
  also have "\<dots> = 2 powi (e + 24)"
    using power_int_add [of "2::real" e 24] by simp
  finally have le: "float_exp ?x \<le> e"
    using float_exp_le [OF nz _ assms(2)] by simp
  have "?x / 2 powi float_exp ?x = of_int (n * 2 ^ nat (e - float_exp ?x))"
    using pow2_quot [OF le, of "real_of_int n"] by simp
  then show ?thesis by (rule fl_integral)
qed

lemma fl_exact:
  assumes "\<bar>n\<bar> \<le> 2 ^ 24" "- 149 \<le> e"
  shows "fl (of_int n * 2 powi e) = of_int n * 2 powi e"
proof (cases "\<bar>n\<bar> < 2 ^ 24")
  case True
  then show ?thesis using assms(2) by (rule fl_exact_lt)
next
  case False
  then have "n = 2 ^ 24 \<or> n = - (2 ^ 24)" using assms(1) by linarith
  then have "of_int n * 2 powi e = real_of_int (n div 2) * 2 powi (e + 1) \<and> \<bar>n div 2\<bar> < 2 ^ 24"
    using power_int_add [of "2::real" e 1] by auto
  then show ?thesis using fl_exact_lt [of "n div 2" "e + 1"] assms(2) by simp
qed

lemma fl_of_int: "\<bar>n\<bar> \<le> 2 ^ 24 \<Longrightarrow> fl (of_int n) = of_int n"
  using fl_exact [of n 0] by simp


lemma float_exp_ge: "- 149 \<le> float_exp x"
  by (simp add: float_exp_def)

lemma float_quot_bound:
  assumes "x \<noteq> 0"
  shows "\<bar>x / 2 powi float_exp x\<bar> < 2 ^ 24"
proof -
  let ?E = "float_exp x"
  have "\<bar>x\<bar> < 2 powi (ilog2 \<bar>x\<bar> + 1)"
    using ilog2_bounds [of "\<bar>x\<bar>"] assms by simp
  also have "\<dots> \<le> 2 powi (?E + 24)"
    by (rule power_int_increasing) (simp_all add: float_exp_def)
  also have "\<dots> = 2 ^ 24 * 2 powi ?E"
    using power_int_add [of "2::real" ?E 24] by simp
  finally show ?thesis
    by (simp add: abs_divide pos_divide_less_eq)
qed

lemma rne_float_bound:
  assumes "x \<noteq> 0"
  shows "\<bar>rne (x / 2 powi float_exp x)\<bar> \<le> 2 ^ 24"
proof -
  let ?y = "x / 2 powi float_exp x"
  have "\<bar>?y\<bar> < 2 ^ 24" using assms by (rule float_quot_bound)
  then have "- (2 ^ 24) < ?y \<and> ?y < 2 ^ 24"
    unfolding abs_less_iff by linarith
  then have "?y \<le> of_int (2 ^ 24)" and "of_int (- (2 ^ 24)) \<le> ?y"
    by simp_all
  then have "rne ?y \<le> 2 ^ 24" and "- (2 ^ 24) \<le> rne ?y"
    using rne_le [of ?y "2 ^ 24"] rne_ge [of "- (2 ^ 24)" ?y] by blast+
  then show ?thesis by linarith
qed

lemma fl_idem: "fl (fl x) = fl x"
proof (cases "x = 0")
  case True
  then show ?thesis by (simp add: fl_def)
next
  case False
  then have "fl x = of_int (rne (x / 2 powi float_exp x)) * 2 powi float_exp x"
    by (simp add: fl_def Let_def)
  then show ?thesis
    using fl_exact [OF rne_float_bound [OF False] float_exp_ge [of x]] by simp
qed

lemma fl_nonneg:
  assumes "0 \<le> x"
  shows "0 \<le> fl x"
proof (cases "x = 0")
  case True
  then show ?thesis by (simp add: fl_def)
next
  case False
  have "of_int 0 \<le> x / 2 powi float_exp x" using assms by simp
  then have "0 \<le> rne (x / 2 powi float_exp x)" by (rule rne_ge)
  then show ?thesis using False by (simp add: fl_def Let_def)
qed

lemma fl_le_exact:
  assumes "x \<noteq> 0" "x \<le> of_int n * 2 powi e" "float_exp x \<le> e"
  shows "fl x \<le> of_int n * 2 powi e"
proof -
  let ?E = "float_exp x"
  have "x / 2 powi ?E \<le> of_int n * 2 powi e / 2 powi ?E"
    using assms(2) by (simp add: divide_right_mono)
  also have "\<dots> = of_int (n * 2 ^ nat (e - ?E))"
    using pow2_quot [OF assms(3), of "real_of_int n"] by simp
  finally have "rne (x / 2 powi ?E) \<le> n * 2 ^ nat (e - ?E)" by (rule rne_le)
  then have "real_of_int (rne (x / 2 powi ?E)) \<le> of_int (n * 2 ^ nat (e - ?E))"
    by (simp only: of_int_le_iff)
  then have "real_of_int (rne (x / 2 powi ?E)) * 2 powi ?E \<le> of_int (n * 2 ^ nat (e - ?E)) * 2 powi ?E"
    by (simp add: mult_right_mono)
  also have "\<dots> = of_int n * 2 powi e"
    using pow2_split [OF assms(3)] by simp
  finally show ?thesis using assms(1) by (simp add: fl_def Let_def)
qed

lemma ilog2_scale:
  assumes "0 < x"
  shows "ilog2 (x * 2 powi k) = ilog2 x + k"
proof (rule ilog2_unique)
  show "0 < x * 2 powi k" using assms by simp
  have "2 powi (ilog2 x + k) = 2 powi ilog2 x * (2::real) powi k"
    by (simp add: power_int_add)
  then show "2 powi (ilog2 x + k) \<le> x * 2 powi k"
    using ilog2_bounds [OF assms] by simp
  have "2 powi (ilog2 x + k + 1) = 2 powi (ilog2 x + 1) * (2::real) powi k"
    using power_int_add [of "2::real" "ilog2 x + 1" k] by (simp add: add.commute add.left_commute)
  then show "x * 2 powi k < 2 powi (ilog2 x + k + 1)"
    using ilog2_bounds [OF assms] by simp
qed

lemma fl_scale:
  assumes "- 149 \<le> ilog2 \<bar>x\<bar> - 23" "- 149 \<le> ilog2 \<bar>x\<bar> - 23 + k"
  shows "fl (x * 2 powi k) = fl x * 2 powi k"
proof (cases "x = 0")
  case True
  then show ?thesis by (simp add: fl_def)
next
  case False
  have "ilog2 \<bar>x * 2 powi k\<bar> = ilog2 \<bar>x\<bar> + k"
    using ilog2_scale [of "\<bar>x\<bar>" k] False by (simp add: abs_mult)
  then have E: "float_exp (x * 2 powi k) = float_exp x + k"
    using assms by (simp add: float_exp_def)
  have "x * 2 powi k / 2 powi (float_exp x + k) = x / 2 powi float_exp x"
    by (simp add: power_int_add)
  then show ?thesis
    using False by (simp add: fl_def Let_def E power_int_add)
qed


section \<open>The color table\<close>

text \<open>
  C10. Every color field of every scheme in the table is claimed to be a 24-bit RGB
  value, at most \<open>0xFFFFFF\<close>. The table breaks this in exactly one place: the
  \<open>brand_text\<close> of the second scheme is written with seven hexadecimal digits.
  The theorem evaluates the table: the only field above \<open>0xFFFFFF\<close> is that one.
\<close>

theorem brand_text_of_scheme_1_exceeds_rgb:
  "brand_text (color_schemes ! 1) = 0x8F8988F
   \<and> \<not> brand_text (color_schemes ! 1) \<le> 0xFFFFFF
   \<and> filter (\<lambda>c. \<not> c \<le> 0xFFFFFF) (concat (map scheme_colors color_schemes)) = [0x8F8988F]"
  by (simp add: color_schemes_def scheme_colors_def)

section \<open>The receive callback\<close>

lemma packet_rpm_bit:
  "bit (packet_rpm (b0 # b1 # b2 # b3 # rest)) n \<longleftrightarrow>
     (n < 8 \<and> bit b0 n) \<or> (8 \<le> n \<and> n < 16 \<and> bit b1 (n - 8))
     \<or> (16 \<le> n \<and> n < 24 \<and> bit b2 (n - 16)) \<or> (24 \<le> n \<and> n < 32 \<and> bit b3 (n - 24))"
  by (auto simp add: bit_simps dest: bit_imp_le_length)

text \<open>
  C3. A payload shorter than the wire format (\<open>sizeof(RpmPacket)\<close>, four bytes)
  is dropped: the callback returns with every global as it was, the stored
  measurement among them.
\<close>

theorem short_packet_is_discarded:
  "sizeof_RpmPacket = 4
   \<and> (length incomingData < 4 \<longrightarrow> esp_now_recv_cb incomingData s = s)"
  by (simp add: esp_now_recv_cb_def sizeof_RpmPacket_def)

theorem short_packet_is_discarded_witness:
  "length [0x40, 0x1F, 0 :: uint8_t] < 4
   \<and> esp_now_recv_cb [0x40, 0x1F, 0] (init_state\<lparr>rpm_value := 1234\<rparr>)
       = init_state\<lparr>rpm_value := 1234\<rparr>"
  using short_packet_is_discarded [of "[0x40, 0x1F, 0]" "init_state\<lparr>rpm_value := 1234\<rparr>"]
  by simp

text \<open>
  C4. A payload of valid length is accepted exactly when the decoded value does not
  exceed \<open>RPM_MAX = 8000\<close>: then the decoded value is stored as it is, and
  otherwise nothing changes (the value is not clamped). In particular a payload that
  encodes 8001 is dropped and one that encodes 8000 is stored.
\<close>

theorem packet_accepted_iff_in_range:
  assumes "4 \<le> length incomingData"
  shows "(packet_rpm incomingData \<le> 8000 \<longrightarrow>
            esp_now_recv_cb incomingData s = s\<lparr>rpm_value := packet_rpm incomingData\<rparr>)
         \<and> (8000 < packet_rpm incomingData \<longrightarrow> esp_now_recv_cb incomingData s = s)
         \<and> (packet_rpm incomingData = 8001 \<longrightarrow>
              rpm_value (esp_now_recv_cb incomingData s) = rpm_value s)
         \<and> (packet_rpm incomingData = 8000 \<longrightarrow>
              rpm_value (esp_now_recv_cb incomingData s) = 8000)"
  using assms by (auto simp add: esp_now_recv_cb_def sizeof_RpmPacket_def RPM_MAX_def Let_def)

theorem packet_accepted_iff_in_range_witness:
  "4 \<le> length [0x41, 0x1F, 0, 0 :: uint8_t]
   \<and> packet_rpm [0x41, 0x1F, 0, 0] = 8001
   \<and> rpm_value (esp_now_recv_cb [0x41, 0x1F, 0, 0] (init_state\<lparr>rpm_value := 1234\<rparr>)) = 1234
   \<and> packet_rpm [0x40, 0x1F, 0, 0] = 8000
   \<and> rpm_value (esp_now_recv_cb [0x40, 0x1F, 0, 0] (init_state\<lparr>rpm_value := 1234\<rparr>)) = 8000"
  using packet_accepted_iff_in_range [of "[0x41, 0x1F, 0, 0]" "init_state\<lparr>rpm_value := 1234\<rparr>"]
        packet_accepted_iff_in_range [of "[0x40, 0x1F, 0, 0]" "init_state\<lparr>rpm_value := 1234\<rparr>"]
  by simp


section \<open>What each callback leaves alone\<close>

lemma update_needle_frame:
  "current_scheme (update_needle pf rpm s) = current_scheme s"
  "rpm_timer (update_needle pf rpm s) = rpm_timer s"
  "rpm_value (update_needle pf rpm s) = rpm_value s"
  "rpm_meter (update_needle pf rpm s) = rpm_meter s"
  "rpm_label (update_needle pf rpm s) = rpm_label s"
  "rpm_unit_label (update_needle pf rpm s) = rpm_unit_label s"
  "scr_touch_btn (update_needle pf rpm s) = scr_touch_btn s"
  "lv_timers (update_needle pf rpm s) = lv_timers s"
  "lv_timer_fresh (update_needle pf rpm s) = lv_timer_fresh s"
  by (simp_all add: update_needle_def Let_def split: option.split)

lemma rpm_timer_cb_frame:
  "current_scheme (rpm_timer_cb pf s) = current_scheme s"
  "rpm_timer (rpm_timer_cb pf s) = rpm_timer s"
  "rpm_value (rpm_timer_cb pf s) = rpm_value s"
  "rpm_meter (rpm_timer_cb pf s) = rpm_meter s"
  "scr_touch_btn (rpm_timer_cb pf s) = scr_touch_btn s"
  "lv_timers (rpm_timer_cb pf s) = lv_timers s"
  "lv_timer_fresh (rpm_timer_cb pf s) = lv_timer_fresh s"
  by (simp_all add: rpm_timer_cb_def Let_def update_needle_frame split: option.split)

lemma esp_now_recv_cb_frame:
  "current_scheme (esp_now_recv_cb d s) = current_scheme s"
  "rpm_timer (esp_now_recv_cb d s) = rpm_timer s"
  "rpm_meter (esp_now_recv_cb d s) = rpm_meter s"
  "needle_line (esp_now_recv_cb d s) = needle_line s"
  "needle_points (esp_now_recv_cb d s) = needle_points s"
  "rpm_label (esp_now_recv_cb d s) = rpm_label s"
  "scr_touch_btn (esp_now_recv_cb d s) = scr_touch_btn s"
  "lv_timers (esp_now_recv_cb d s) = lv_timers s"
  "lv_timer_fresh (esp_now_recv_cb d s) = lv_timer_fresh s"
  by (simp_all add: esp_now_recv_cb_def Let_def)

lemma create_frame:
  "current_scheme (Lvgl_CreateRpmGauge pf s) = current_scheme s"
  "rpm_value (Lvgl_CreateRpmGauge pf s) = rpm_value s"
  "scr_touch_btn (Lvgl_CreateRpmGauge pf s) = Some LV_EVENT_CLICKED"
  by (simp_all add: Lvgl_CreateRpmGauge_def Let_def lv_timer_create_def lv_timer_del_def
        update_needle_frame split: option.split prod.split)

lemma create_timers:
  "lv_timers (Lvgl_CreateRpmGauge pf s) =
     (case rpm_timer s of None \<Rightarrow> lv_timers s | Some h \<Rightarrow> filter (\<lambda>t. fst t \<noteq> h) (lv_timers s))
     @ [(lv_timer_fresh s, 100)]"
  "rpm_timer (Lvgl_CreateRpmGauge pf s) = Some (lv_timer_fresh s)"
  "lv_timer_fresh (Lvgl_CreateRpmGauge pf s) = Suc (lv_timer_fresh s)"
  by (simp_all add: Lvgl_CreateRpmGauge_def Let_def lv_timer_create_def lv_timer_del_def
        update_needle_frame split: option.split prod.split)

lemma create_label:
  "map_option label_text (rpm_label (Lvgl_CreateRpmGauge pf s)) = Some ''0''"
  by (simp add: Lvgl_CreateRpmGauge_def Let_def lv_timer_create_def lv_timer_del_def
        update_needle_frame split: option.split prod.split)

lemma create_needle:
  "needle_points (Lvgl_CreateRpmGauge pf s) = needle_segment pf (rpm_value s) 370"
  by (simp add: Lvgl_CreateRpmGauge_def Let_def lv_timer_create_def lv_timer_del_def
        update_needle_def split: option.split prod.split)


section \<open>The stored measurement\<close>

lemma accepted_value_range:
  fixes w :: "32 word"
  assumes "w \<le> 8000"
  shows "0 \<le> sint w \<and> sint w \<le> 8000"
proof -
  have u: "uint w \<le> 8000" using assms by (simp add: word_le_def)
  have a: "- (2 ^ 31) \<le> uint w" by (rule order_trans [of _ 0]) simp_all
  have b: "uint w < 2 ^ 31" using u by simp
  have "signed_take_bit 31 (uint w) = uint w"
    using a b by (rule signed_take_bit_int_eq_self)
  then have "sint w = uint w" by (simp add: sint_uint)
  with u show ?thesis by simp
qed


lemma esp_now_recv_cb_range:
  assumes "0 \<le> sint (rpm_value s) \<and> sint (rpm_value s) \<le> 8000"
  shows "0 \<le> sint (rpm_value (esp_now_recv_cb d s)) \<and> sint (rpm_value (esp_now_recv_cb d s)) \<le> 8000"
  using assms accepted_value_range [of "packet_rpm d"]
  by (simp add: esp_now_recv_cb_def Let_def RPM_MAX_def)

lemma touch_frame:
  "rpm_value (touch_color_cycle_cb pf code s) = rpm_value s"
  by (simp add: touch_color_cycle_cb_def Let_def create_frame)

lemma step_rpm_range:
  assumes "0 \<le> sint (rpm_value s) \<and> sint (rpm_value s) \<le> 8000"
  shows "0 \<le> sint (rpm_value (step pf s ev)) \<and> sint (rpm_value (step pf s ev)) \<le> 8000"
  using assms esp_now_recv_cb_range [OF assms]
  by (cases ev) (simp_all add: step_def rpm_timer_cb_frame touch_frame)

lemma run_rpm_range:
  "0 \<le> sint (rpm_value s) \<and> sint (rpm_value s) \<le> 8000 \<Longrightarrow>
   0 \<le> sint (rpm_value (run pf s evs)) \<and> sint (rpm_value (run pf s evs)) \<le> 8000"
  unfolding run_def
proof (induction evs arbitrary: s)
  case Nil
  then show ?case by simp
next
  case (Cons ev evs)
  from step_rpm_range [OF Cons.prems] show ?case
    by (simp add: Cons.IH)
qed

lemma packets_rpm_range:
  "0 \<le> sint (rpm_value s) \<and> sint (rpm_value s) \<le> 8000 \<Longrightarrow>
   0 \<le> sint (rpm_value (foldl (\<lambda>s bytes. esp_now_recv_cb bytes s) s packets))
   \<and> sint (rpm_value (foldl (\<lambda>s bytes. esp_now_recv_cb bytes s) s packets)) \<le> 8000"
proof (induction packets arbitrary: s)
  case Nil
  then show ?case by simp
next
  case (Cons d ds)
  from esp_now_recv_cb_range [OF Cons.prems] show ?case
    by (simp add: Cons.IH)
qed

lemma init_rpm: "rpm_value init_state = 0"
  by (simp add: init_state_def)

text \<open>
  C5. The stored measurement is always within 0 and 8000: it starts at 0, any
  sequence of packets (of any length and content) keeps it there, and so does any
  run of the sketch after start-up, whatever packets, timer ticks and touch events
  arrive. Only the receive callback writes it, and only values that pass the
  unsigned comparison with \<open>RPM_MAX\<close>.
\<close>

theorem measurement_always_in_range:
  "rpm_value init_state = 0
   \<and> 0 \<le> sint (rpm_value (foldl (\<lambda>s bytes. esp_now_recv_cb bytes s) init_state packets))
   \<and> sint (rpm_value (foldl (\<lambda>s bytes. esp_now_recv_cb bytes s) init_state packets)) \<le> 8000
   \<and> 0 \<le> sint (rpm_value (run pf (arduino_setup pf early) evs))
   \<and> sint (rpm_value (run pf (arduino_setup pf early) evs)) \<le> 8000"
proof -
  have i: "0 \<le> sint (rpm_value init_state) \<and> sint (rpm_value init_state) \<le> 8000"
    by (simp add: init_rpm)
  have "0 \<le> sint (rpm_value (arduino_setup pf early)) \<and> sint (rpm_value (arduino_setup pf early)) \<le> 8000"
    using packets_rpm_range [OF i, of early] by (simp add: arduino_setup_def create_frame)
  from run_rpm_range [OF this, of pf evs] packets_rpm_range [OF i, of packets] init_rpm
  show ?thesis by simp
qed


section \<open>The scheme cursor\<close>

lemma length_color_schemes: "length color_schemes = 3"
  by (simp add: color_schemes_def)

lemma tap_current_scheme:
  assumes "0 \<le> current_scheme s" "current_scheme s < 3"
  shows "current_scheme (tap pf s) = (current_scheme s + 1) mod 3"
proof -
  have "current_scheme (tap pf s) = (if 3 \<le> current_scheme s + 1 then 0 else current_scheme s + 1)"
    by (simp add: tap_def touch_color_cycle_cb_def Let_def create_frame length_color_schemes)
  also have "\<dots> = (current_scheme s + 1) mod 3"
    using assms by presburger
  finally show ?thesis .
qed

lemma tap_funpow_current_scheme:
  assumes "0 \<le> current_scheme s" "current_scheme s < 3"
  shows "current_scheme ((tap pf ^^ n) s) = (current_scheme s + int n) mod 3"
proof (induction n)
  case 0
  then show ?case using assms by simp
next
  case (Suc n)
  have "0 \<le> current_scheme ((tap pf ^^ n) s)" "current_scheme ((tap pf ^^ n) s) < 3"
    by (simp_all add: Suc.IH)
  from tap_current_scheme [OF this, of pf] show ?case
    by (simp add: Suc.IH mod_simps ac_simps)
qed

text \<open>
  C6. The table holds three schemes. From any valid cursor, as many taps as there
  are schemes bring the cursor back to where it was, and so does any multiple of
  that number, so the scheme in use is the original one again; after any number of
  taps the cursor is a valid index.
\<close>

theorem scheme_cursor_cycles:
  assumes "0 \<le> current_scheme s" "current_scheme s < int (length color_schemes)"
  shows "length color_schemes = 3
         \<and> current_scheme ((tap pf ^^ length color_schemes) s) = current_scheme s
         \<and> current_scheme ((tap pf ^^ (length color_schemes * k)) s) = current_scheme s
         \<and> color_schemes ! nat (current_scheme ((tap pf ^^ (length color_schemes * k)) s))
             = color_schemes ! nat (current_scheme s)
         \<and> 0 \<le> current_scheme ((tap pf ^^ n) s)
         \<and> current_scheme ((tap pf ^^ n) s) < int (length color_schemes)"
proof -
  have v: "0 \<le> current_scheme s" "current_scheme s < 3"
    using assms by (simp_all add: length_color_schemes)
  have "current_scheme ((tap pf ^^ (3 * k)) s) = current_scheme s"
    using v by (simp add: tap_funpow_current_scheme [OF v])
  moreover have "current_scheme ((tap pf ^^ 3) s) = current_scheme s"
    using v by (simp add: tap_funpow_current_scheme [OF v])
  ultimately show ?thesis
    by (simp add: length_color_schemes tap_funpow_current_scheme [OF v])
qed

theorem scheme_cursor_cycles_witness:
  "0 \<le> current_scheme init_state \<and> current_scheme init_state < int (length color_schemes)
   \<and> current_scheme ((tap example_platform ^^ 3) init_state) = 0
   \<and> current_scheme ((tap example_platform ^^ 6) init_state) = 0
   \<and> current_scheme (tap example_platform init_state) < 3"
  using scheme_cursor_cycles [of init_state example_platform 2 1]
  by (simp add: length_color_schemes init_state_def)


text \<open>In every state that the sketch reaches the cursor is a valid index of the table.\<close>

lemma touch_scheme_valid:
  assumes "0 \<le> current_scheme s \<and> current_scheme s < 3"
  shows "0 \<le> current_scheme (touch_color_cycle_cb pf code s)
         \<and> current_scheme (touch_color_cycle_cb pf code s) < 3"
proof (cases "code = LV_EVENT_CLICKED")
  case True
  then have "touch_color_cycle_cb pf code s = tap pf s" by (simp add: tap_def)
  then show ?thesis using assms tap_current_scheme [of s pf] by simp
next
  case False
  then show ?thesis using assms by (simp add: touch_color_cycle_cb_def)
qed

lemma step_scheme_valid:
  assumes "0 \<le> current_scheme s \<and> current_scheme s < 3"
  shows "0 \<le> current_scheme (step pf s ev) \<and> current_scheme (step pf s ev) < 3"
  using assms touch_scheme_valid [OF assms]
  by (cases ev) (simp_all add: step_def esp_now_recv_cb_frame rpm_timer_cb_frame)

lemma run_scheme_valid:
  "0 \<le> current_scheme s \<and> current_scheme s < 3 \<Longrightarrow>
   0 \<le> current_scheme (run pf s evs) \<and> current_scheme (run pf s evs) < 3"
  unfolding run_def
proof (induction evs arbitrary: s)
  case Nil
  then show ?case by simp
next
  case (Cons ev evs)
  from step_scheme_valid [OF Cons.prems] show ?case by (simp add: Cons.IH)
qed

lemma packets_current_scheme:
  "current_scheme (foldl (\<lambda>s bytes. esp_now_recv_cb bytes s) s packets) = current_scheme s"
  by (induction packets arbitrary: s) (simp_all add: esp_now_recv_cb_frame)

lemma reachable_scheme_valid:
  "0 \<le> current_scheme (run pf (arduino_setup pf early) evs)
   \<and> current_scheme (run pf (arduino_setup pf early) evs) < int (length color_schemes)"
proof -
  have "current_scheme (arduino_setup pf early) = 0"
    by (simp add: arduino_setup_def create_frame packets_current_scheme init_state_def)
  then have "0 \<le> current_scheme (arduino_setup pf early) \<and> current_scheme (arduino_setup pf early) < 3"
    by simp
  from run_scheme_valid [OF this] show ?thesis by (simp add: length_color_schemes)
qed

section \<open>The refresh timer\<close>

lemma timer_inv_init: "timer_inv init_state"
  by (simp add: timer_inv_def init_state_def)

lemma create_timer_inv:
  assumes "timer_inv s"
  shows "lv_timers (Lvgl_CreateRpmGauge pf s) = [(lv_timer_fresh s, 100)]"
    and "rpm_timer (Lvgl_CreateRpmGauge pf s) = Some (lv_timer_fresh s)"
    and "rpm_timer s \<noteq> Some (lv_timer_fresh s)"
    and "timer_inv (Lvgl_CreateRpmGauge pf s)"
  using assms by (auto simp add: timer_inv_def create_timers split: option.splits)

lemma timer_inv_cong:
  "rpm_timer s' = rpm_timer s \<Longrightarrow> lv_timers s' = lv_timers s \<Longrightarrow>
   lv_timer_fresh s' = lv_timer_fresh s \<Longrightarrow> timer_inv s' = timer_inv s"
  by (simp add: timer_inv_def split: option.split)

lemma touch_timer_inv:
  assumes "timer_inv s"
  shows "timer_inv (touch_color_cycle_cb pf code s)"
proof -
  have "timer_inv (s\<lparr>current_scheme := c\<rparr>) = timer_inv s" for c
    by (rule timer_inv_cong) simp_all
  then have "timer_inv (s\<lparr>current_scheme := c\<rparr>)" for c
    using assms by simp
  then show ?thesis
    using assms by (simp add: touch_color_cycle_cb_def Let_def create_timer_inv(4))
qed

lemma step_timer_inv:
  assumes "timer_inv s"
  shows "timer_inv (step pf s ev)"
proof (cases ev)
  case (Packet d)
  have "timer_inv (esp_now_recv_cb d s) = timer_inv s"
    by (rule timer_inv_cong) (simp_all add: esp_now_recv_cb_frame)
  then show ?thesis
    using assms Packet by (simp add: step_def)
next
  case (TimerFires h)
  have "timer_inv (rpm_timer_cb pf s) = timer_inv s"
    by (rule timer_inv_cong) (simp_all add: rpm_timer_cb_frame)
  then show ?thesis
    using assms TimerFires by (simp add: step_def)
next
  case (Touch code)
  then show ?thesis using assms by (simp add: step_def touch_timer_inv)
qed

lemma run_timer_inv: "timer_inv s \<Longrightarrow> timer_inv (run pf s evs)"
  unfolding run_def by (induction evs arbitrary: s) (simp_all add: step_timer_inv)

lemma packets_timer_inv:
  "timer_inv s \<Longrightarrow> timer_inv (foldl (\<lambda>s bytes. esp_now_recv_cb bytes s) s packets)"
proof (induction packets arbitrary: s)
  case Nil
  then show ?case by simp
next
  case (Cons d ds)
  have "timer_inv (esp_now_recv_cb d s) = timer_inv s"
    by (rule timer_inv_cong) (simp_all add: esp_now_recv_cb_frame)
  then have "timer_inv (esp_now_recv_cb d s)"
    using Cons.prems by simp
  then show ?case by (simp add: Cons.IH)
qed

lemma step_rpm_timer_Some:
  "rpm_timer s = Some h \<Longrightarrow> \<exists>h'. rpm_timer (step pf s ev) = Some h'"
  by (cases ev)
     (simp_all add: step_def esp_now_recv_cb_frame rpm_timer_cb_frame touch_color_cycle_cb_def
        Let_def create_timers)

lemma run_rpm_timer_Some:
  "rpm_timer s = Some h \<Longrightarrow> \<exists>h'. rpm_timer (run pf s evs) = Some h'"
  unfolding run_def
proof (induction evs arbitrary: s h)
  case Nil
  then show ?case by simp
next
  case (Cons ev evs)
  from step_rpm_timer_Some [OF Cons.prems, of pf ev]
  obtain h' where "rpm_timer (step pf s ev) = Some h'" by blast
  from Cons.IH [OF this] show ?case by simp
qed

text \<open>
  C7. At most one refresh timer is live at any time. The timers are tracked by
  \<open>rpm_timer\<close> at start-up, and every callback keeps it so. From such a state
  the scene builder leaves exactly one live timer: a fresh one with a period of
  100 ms, after the timer that ran before has been deleted. After start-up every
  state that the sketch reaches has exactly one live timer, of period 100 ms.
\<close>

theorem at_most_one_refresh_timer:
  "timer_inv init_state
   \<and> (timer_inv s \<longrightarrow>
        length (lv_timers s) \<le> 1
        \<and> lv_timers (Lvgl_CreateRpmGauge pf s) = [(lv_timer_fresh s, 100)]
        \<and> rpm_timer (Lvgl_CreateRpmGauge pf s) = Some (lv_timer_fresh s)
        \<and> rpm_timer s \<noteq> Some (lv_timer_fresh s)
        \<and> timer_inv (step pf s ev))
   \<and> (\<exists>h. lv_timers (run pf (arduino_setup pf early) evs) = [(h, 100)]
            \<and> rpm_timer (run pf (arduino_setup pf early) evs) = Some h)"
proof -
  have p: "timer_inv (foldl (\<lambda>s bytes. esp_now_recv_cb bytes s) init_state early)"
    using timer_inv_init by (rule packets_timer_inv)
  have a: "timer_inv (arduino_setup pf early)"
    using create_timer_inv(4) [OF p] by (simp add: arduino_setup_def)
  have b: "rpm_timer (arduino_setup pf early)
           = Some (lv_timer_fresh (foldl (\<lambda>s bytes. esp_now_recv_cb bytes s) init_state early))"
    using create_timer_inv(2) [OF p] by (simp add: arduino_setup_def)
  have "\<exists>h. lv_timers (run pf (arduino_setup pf early) evs) = [(h, 100)]
            \<and> rpm_timer (run pf (arduino_setup pf early) evs) = Some h"
    using run_timer_inv [OF a, of pf evs] run_rpm_timer_Some [OF b, of pf evs]
    by (auto simp add: timer_inv_def split: option.splits)
  moreover have "timer_inv s \<Longrightarrow> length (lv_timers s) \<le> 1"
    by (auto simp add: timer_inv_def split: option.splits)
  ultimately show ?thesis
    using timer_inv_init create_timer_inv [of s] step_timer_inv [of s pf ev] by blast
qed

theorem at_most_one_refresh_timer_witness:
  "timer_inv (arduino_setup example_platform [])
   \<and> lv_timers (arduino_setup example_platform []) = [(0, 100)]
   \<and> lv_timers (Lvgl_CreateRpmGauge example_platform (arduino_setup example_platform [])) = [(1, 100)]
   \<and> rpm_timer (Lvgl_CreateRpmGauge example_platform (arduino_setup example_platform [])) = Some 1"
proof -
  have f: "lv_timer_fresh (arduino_setup example_platform []) = 1"
    by (simp add: arduino_setup_def create_timers init_state_def)
  have l: "lv_timers (arduino_setup example_platform []) = [(0, 100)]"
    by (simp add: arduino_setup_def create_timers init_state_def)
  have r: "rpm_timer (arduino_setup example_platform []) = Some 0"
    by (simp add: arduino_setup_def create_timers init_state_def)
  have i: "timer_inv (arduino_setup example_platform [])"
    by (simp add: timer_inv_def f l r)
  show ?thesis
    using at_most_one_refresh_timer [of "arduino_setup example_platform []" example_platform]
      i l f by simp
qed


section \<open>A tap rebuilds the scene\<close>

lemma create_line:
  "map_option line_points (needle_line (Lvgl_CreateRpmGauge pf s))
     = Some (needle_segment pf (rpm_value s) 370)"
  by (simp add: Lvgl_CreateRpmGauge_def Let_def lv_timer_create_def lv_timer_del_def
        update_needle_def split: option.split prod.split)

lemma rpm_timer_cb_label:
  "map_option label_text (rpm_label (rpm_timer_cb pf s))
     = map_option (\<lambda>l. dec_string (sint (rpm_value s))) (rpm_label s)"
  by (simp add: rpm_timer_cb_def Let_def update_needle_frame split: option.split)

lemma tap_effect:
  "rpm_value (tap pf s) = rpm_value s"
  "map_option label_text (rpm_label (tap pf s)) = Some ''0''"
  "needle_points (tap pf s) = needle_segment pf (rpm_value s) 370"
  "map_option line_points (needle_line (tap pf s)) = Some (needle_segment pf (rpm_value s) 370)"
  "scr_touch_btn (tap pf s) = Some LV_EVENT_CLICKED"
  "lv_timer_fresh s \<in> fst ` set (lv_timers (tap pf s))"
  by (simp_all add: tap_def touch_color_cycle_cb_def Let_def create_frame create_label
        create_needle create_line create_timers)

lemma step_touch:
  "scr_touch_btn s = Some LV_EVENT_CLICKED \<Longrightarrow> step pf s (Touch LV_EVENT_CLICKED) = tap pf s"
  by (simp add: step_def tap_def)

text \<open>
  C9, as the code has it. A tap on the touch surface keeps the stored measurement
  and recomputes the needle at once from it, through the call of
  \<open>update_needle\<close> at the end of the scene builder. The numeric label, however,
  is created anew with the text \<open>0\<close>; it shows the measurement again only after
  the next tick of the refresh timer.
\<close>

theorem tap_keeps_measurement_resets_label:
  assumes "scr_touch_btn s = Some LV_EVENT_CLICKED"
  shows "rpm_value (step pf s (Touch LV_EVENT_CLICKED)) = rpm_value s
         \<and> map_option label_text (rpm_label (step pf s (Touch LV_EVENT_CLICKED))) = Some ''0''
         \<and> needle_points (step pf s (Touch LV_EVENT_CLICKED))
             = needle_segment pf (rpm_value s) 370
         \<and> map_option line_points (needle_line (step pf s (Touch LV_EVENT_CLICKED)))
             = Some (needle_segment pf (rpm_value s) 370)
         \<and> map_option label_text
              (rpm_label (step pf (step pf s (Touch LV_EVENT_CLICKED)) (TimerFires (lv_timer_fresh s))))
             = Some (dec_string (sint (rpm_value s)))"
proof -
  have "map_option label_text (rpm_label (step pf (tap pf s) (TimerFires (lv_timer_fresh s))))
          = Some (dec_string (sint (rpm_value s)))"
    using tap_effect(2) [of pf s] tap_effect(6) [of s pf]
    by (auto simp add: step_def rpm_timer_cb_label tap_effect(1))
  then show ?thesis
    by (simp add: step_touch [OF assms] tap_effect)
qed

lemma setup_touch_btn: "scr_touch_btn (arduino_setup pf early) = Some LV_EVENT_CLICKED"
  by (simp add: arduino_setup_def create_frame)

lemma dec_string_8000: "dec_string 8000 = ''8000''"
  by (simp add: dec_string_def digit_char_def)

lemma recv_8000: "esp_now_recv_cb [0x40, 0x1F, 0, 0] s = s\<lparr>rpm_value := 8000\<rparr>"
  by (simp add: esp_now_recv_cb_def sizeof_RpmPacket_def RPM_MAX_def)

text \<open>
  C9, as stated, says that the label still shows the last value after the rebuild.
  After a packet that encodes 8000 and one timer tick the label reads \<open>8000\<close>;
  one tap later the measurement is still 8000 and the label reads \<open>0\<close>.
\<close>

theorem tap_resets_label_counterexample:
  "rpm_value (run example_platform (arduino_setup example_platform [])
       [Packet [0x40, 0x1F, 0, 0], TimerFires 0]) = 8000
   \<and> map_option label_text (rpm_label (run example_platform (arduino_setup example_platform [])
       [Packet [0x40, 0x1F, 0, 0], TimerFires 0])) = Some ''8000''
   \<and> rpm_value (run example_platform (arduino_setup example_platform [])
       [Packet [0x40, 0x1F, 0, 0], TimerFires 0, Touch LV_EVENT_CLICKED]) = 8000
   \<and> map_option label_text (rpm_label (run example_platform (arduino_setup example_platform [])
       [Packet [0x40, 0x1F, 0, 0], TimerFires 0, Touch LV_EVENT_CLICKED])) = Some ''0''"
proof -
  let ?s0 = "arduino_setup example_platform []"
  let ?s1 = "?s0\<lparr>rpm_value := 8000\<rparr>"
  let ?s2 = "rpm_timer_cb example_platform ?s1"
  have t: "lv_timers ?s1 = [(0, 100)]"
    by (simp add: arduino_setup_def create_timers init_state_def)
  have l: "map_option label_text (rpm_label ?s1) = Some ''0''"
    by (simp add: arduino_setup_def create_label)
  have b: "scr_touch_btn ?s2 = Some LV_EVENT_CLICKED"
    by (simp add: rpm_timer_cb_frame setup_touch_btn)
  have r2: "run example_platform ?s0 [Packet [0x40, 0x1F, 0, 0], TimerFires 0] = ?s2"
    by (simp add: run_def step_def recv_8000 t)
  have r3: "run example_platform ?s0 [Packet [0x40, 0x1F, 0, 0], TimerFires 0, Touch LV_EVENT_CLICKED]
            = tap example_platform ?s2"
    using r2 step_touch [OF b] by (simp add: run_def)
  have l2: "map_option label_text (rpm_label ?s2) = Some ''8000''"
    using l by (auto simp add: rpm_timer_cb_label dec_string_8000)
  show ?thesis
    unfolding r2 r3 by (simp add: l2 tap_effect rpm_timer_cb_frame)
qed

theorem tap_keeps_measurement_resets_label_witness:
  "scr_touch_btn (arduino_setup example_platform [[0x40, 0x1F, 0, 0]]) = Some LV_EVENT_CLICKED
   \<and> rpm_value (step example_platform (arduino_setup example_platform [[0x40, 0x1F, 0, 0]])
         (Touch LV_EVENT_CLICKED)) = 8000
   \<and> map_option label_text
        (rpm_label (step example_platform (arduino_setup example_platform [[0x40, 0x1F, 0, 0]])
           (Touch LV_EVENT_CLICKED))) = Some ''0''
   \<and> map_option label_text
        (rpm_label (step example_platform
           (step example_platform (arduino_setup example_platform [[0x40, 0x1F, 0, 0]])
              (Touch LV_EVENT_CLICKED))
           (TimerFires 1))) = Some ''8000''"
proof -
  let ?s = "arduino_setup example_platform [[0x40, 0x1F, 0, 0]]"
  have b: "scr_touch_btn ?s = Some LV_EVENT_CLICKED" by (rule setup_touch_btn)
  have v: "rpm_value ?s = 8000"
    by (simp add: arduino_setup_def create_frame recv_8000)
  have f: "lv_timer_fresh ?s = 1"
    by (simp add: arduino_setup_def create_timers recv_8000 init_state_def)
  show ?thesis
    using tap_keeps_measurement_resets_label [OF b, of example_platform] b
    by (simp add: v f dec_string_8000)
qed


section \<open>Rounding error\<close>

lemma rne_error: "\<bar>real_of_int (rne y) - y\<bar> \<le> 1 / 2"
proof -
  have "real_of_int \<lfloor>y\<rfloor> \<le> y" "y < real_of_int \<lfloor>y\<rfloor> + 1" by linarith+
  then show ?thesis by (auto simp add: rne_def Let_def)
qed

lemma fl_error:
  assumes "x \<noteq> 0"
  shows "\<bar>fl x - x\<bar> \<le> 2 powi float_exp x / 2"
proof -
  let ?p = "(2::real) powi float_exp x"
  have p: "0 < ?p" by simp
  have "fl x - x = (real_of_int (rne (x / ?p)) - x / ?p) * ?p"
    using assms p by (simp add: fl_def Let_def field_simps)
  then have "\<bar>fl x - x\<bar> = \<bar>real_of_int (rne (x / ?p)) - x / ?p\<bar> * ?p"
    using p by (simp add: abs_mult)
  also have "\<dots> \<le> 1 / 2 * ?p"
    using rne_error [of "x / ?p"] p by (intro mult_right_mono) simp_all
  finally show ?thesis by simp
qed

lemma fl_rel_error:
  assumes "2 powi (- 126) \<le> \<bar>x\<bar>"
  shows "\<bar>fl x - x\<bar> \<le> \<bar>x\<bar> / 2 ^ 24"
proof -
  have pos: "0 < \<bar>x\<bar>" using assms by (smt (verit) zero_less_power_int)
  then have nz: "x \<noteq> 0" by simp
  have "- 126 \<le> ilog2 \<bar>x\<bar>" using ilog2_ge [OF pos assms] .
  then have E: "float_exp x = ilog2 \<bar>x\<bar> - 23" by (simp add: float_exp_def)
  have "2 powi float_exp x = 2 powi ilog2 \<bar>x\<bar> / (2::real) ^ 23"
    unfolding E using power_int_diff [of "2::real" "ilog2 \<bar>x\<bar>" 23] by simp
  also have "\<dots> \<le> \<bar>x\<bar> / 2 ^ 23"
    using ilog2_bounds [OF pos] by (simp add: divide_right_mono)
  finally have "2 powi float_exp x / 2 \<le> \<bar>x\<bar> / 2 ^ 23 / 2" by simp
  then show ?thesis using fl_error [OF nz] by simp
qed

lemma fl_scale_exact:
  assumes "x \<noteq> 0" "- 149 \<le> float_exp x + k"
  shows "fl (fl x * 2 powi k) = fl x * 2 powi k"
proof -
  have "fl x * 2 powi k = of_int (rne (x / 2 powi float_exp x)) * 2 powi (float_exp x + k)"
    using assms(1) by (simp add: fl_def Let_def power_int_add)
  then show ?thesis
    using fl_exact [OF rne_float_bound [OF assms(1)] assms(2)] by simp
qed

section \<open>Clamping and saturation of the needle\<close>

lemma clamp_rpm_cases:
  "clamp_rpm m = (if m <s 0 then 0 else if 8000 <s m then 8000 else m)"
  by (simp add: clamp_rpm_def RPM_MIN_def RPM_MAX_def Let_def word_sless_alt)

lemma clamp_rpm_idem: "clamp_rpm (clamp_rpm m) = clamp_rpm m"
  by (simp add: clamp_rpm_cases word_sless_alt)

lemma clamp_rpm_range: "0 \<le> sint (clamp_rpm m) \<and> sint (clamp_rpm m) \<le> 8000"
  by (simp add: clamp_rpm_cases word_sless_alt)


lemma needle_segment_clamp:
  assumes "clamp_rpm a = clamp_rpm b"
  shows "needle_segment pf a d = needle_segment pf b d"
proof -
  have "needle_scale_val a = needle_scale_val b"
    using assms by (simp add: needle_scale_val_def)
  then have "needle_angle_rad a = needle_angle_rad b"
    by (simp add: needle_angle_rad_def needle_angle_deg_def needle_t_def)
  then show ?thesis by (simp add: needle_segment_def)
qed

lemma update_needle_clamp:
  assumes "clamp_rpm a = clamp_rpm b"
  shows "update_needle pf a s = update_needle pf b s"
  using needle_segment_clamp [OF assms] by (simp add: update_needle_def split: option.split)

text \<open>
  C2. Clamping a measurement to the range from 0 to 8000 twice is the same as
  clamping it once, and the needle saturates: for a negative measurement the
  computed segment (and the whole effect of \<open>update_needle\<close>) is that of 0, and
  for a measurement above 8000 it is that of 8000.
\<close>

theorem needle_saturates_at_range_ends:
  "clamp_rpm (clamp_rpm m) = clamp_rpm m
   \<and> (m <s 0 \<longrightarrow> needle_segment pf m d = needle_segment pf 0 d
                 \<and> update_needle pf m s = update_needle pf 0 s)
   \<and> (8000 <s m \<longrightarrow> needle_segment pf m d = needle_segment pf 8000 d
                    \<and> update_needle pf m s = update_needle pf 8000 s)"
proof -
  have lo: "m <s 0 \<Longrightarrow> clamp_rpm m = clamp_rpm 0"
    by (simp add: clamp_rpm_cases word_sless_alt)
  have hi: "8000 <s m \<Longrightarrow> clamp_rpm m = clamp_rpm 8000"
    by (simp add: clamp_rpm_cases word_sless_alt)
  show ?thesis
    using needle_segment_clamp [OF lo] update_needle_clamp [OF lo]
      needle_segment_clamp [OF hi] update_needle_clamp [OF hi]
    by (simp add: clamp_rpm_idem)
qed

theorem needle_saturates_at_range_ends_witness:
  "(- 5 :: int32_t) <s 0
   \<and> clamp_rpm (- 5) = 0
   \<and> needle_segment example_platform (- 5) 370 = needle_segment example_platform 0 370
   \<and> (8000 :: int32_t) <s 9000
   \<and> clamp_rpm 9000 = 8000
   \<and> needle_segment example_platform 9000 370 = needle_segment example_platform 8000 370"
  using needle_saturates_at_range_ends [of "- 5" example_platform 370]
        needle_saturates_at_range_ends [of 9000 example_platform 370]
  by (simp add: clamp_rpm_cases word_sless_alt)

section \<open>The needle angle\<close>

lemma float_of_int_exact: "\<bar>n\<bar> \<le> 2 ^ 24 \<Longrightarrow> float_of_int n = of_int n"
  by (simp add: float_of_int_def fl_of_int)

lemma fl_le_8:
  assumes "0 \<le> x" "x \<le> 8"
  shows "fl x \<le> 8"
proof (cases "x = 0")
  case True
  then show ?thesis by (simp add: fl_0)
next
  case False
  have "\<bar>x\<bar> < 2 powi (3 + 24)" using assms by simp
  then have "float_exp x \<le> 3" using False by (intro float_exp_le) simp_all
  then show ?thesis
    using fl_le_exact [OF False, of 1 3] assms by simp
qed

lemma fl_le_1:
  assumes "0 \<le> x" "x \<le> 1"
  shows "fl x \<le> 1"
proof (cases "x = 0")
  case True
  then show ?thesis by (simp add: fl_0)
next
  case False
  have "\<bar>x\<bar> < 2 powi (0 + 24)" using assms by simp
  then have "float_exp x \<le> 0" using False by (intro float_exp_le) simp_all
  then show ?thesis
    using fl_le_exact [OF False, of 1 0] assms by simp
qed

lemma needle_scale_val_eq:
  "needle_scale_val m = fl (real_of_int (sint (clamp_rpm m)) / 1000)"
proof -
  let ?c = "sint (clamp_rpm m)"
  have r: "0 \<le> ?c" "?c \<le> 8000" using clamp_rpm_range [of m] by simp_all
  then have c: "float_of_int ?c = of_int ?c" by (intro float_of_int_exact) simp
  have x: "0 \<le> real_of_int ?c / 1000" "real_of_int ?c / 1000 \<le> 8"
    using r by (simp_all del: of_int_sint)
  have "0 \<le> fl (real_of_int ?c / 1000)" "fl (real_of_int ?c / 1000) \<le> 8"
    using fl_nonneg [OF x(1)] fl_le_8 [OF x] by simp_all
  then show ?thesis
    by (simp add: needle_scale_val_def Let_def c fdiv_def SCALE_MIN_def SCALE_MAX_def
          float_of_int_exact del: of_int_sint)
qed


lemma normal_range: "1 / 2 ^ 14 \<le> \<bar>x\<bar> \<Longrightarrow> 2 powi (- 126) \<le> \<bar>x::real\<bar>"
  by (simp add: power_int_minus)

lemma fl_div_8:
  assumes "1 / 1000 \<le> x"
  shows "fl (fl x / 8) = fl (x / 8)"
proof -
  have pos: "0 < \<bar>x\<bar>" and nz: "x \<noteq> 0" using assms by simp_all
  have "2 powi (- 10) \<le> \<bar>x\<bar>" using assms by (simp add: power_int_minus field_simps)
  then have l: "- 10 \<le> ilog2 \<bar>x\<bar>" using ilog2_ge [OF pos] by simp
  then have e: "- 149 \<le> float_exp x + (- 3)" by (simp add: float_exp_def)
  have "fl (fl x * 2 powi (- 3)) = fl x * 2 powi (- 3)"
    using nz e by (rule fl_scale_exact)
  moreover have "fl (x * 2 powi (- 3)) = fl x * 2 powi (- 3)"
    using l by (intro fl_scale) simp_all
  ultimately show ?thesis by (simp add: power_int_minus field_simps)
qed

lemma needle_t_eq:
  "needle_t m = fl (real_of_int (sint (clamp_rpm m)) / 8000)"
proof -
  let ?c = "sint (clamp_rpm m)"
  have r: "0 \<le> ?c" "?c \<le> 8000" using clamp_rpm_range [of m] by simp_all
  have t: "needle_t m = fl (fl (real_of_int ?c / 1000) / 8)"
    by (simp add: needle_t_def needle_scale_val_eq fsub_def fdiv_def SCALE_MIN_def SCALE_MAX_def
          float_of_int_exact fl_idem del: of_int_sint)
  show ?thesis
  proof (cases "?c = 0")
    case True
    then show ?thesis unfolding t by (simp add: fl_0 del: of_int_sint)
  next
    case False
    then have "1 \<le> ?c" using r by linarith
    then have "1 \<le> real_of_int ?c" by (simp only: of_int_1_le_iff)
    then have "1 / 1000 \<le> real_of_int ?c / 1000" by simp
    from fl_div_8 [OF this] show ?thesis unfolding t by (simp del: of_int_sint)
  qed
qed

lemma needle_angle_deg_eq:
  "needle_angle_deg m = fl (135 + fl (needle_t m * 270))"
  by (simp add: needle_angle_deg_def fadd_def fmul_def GAUGE_START_DEG_def GAUGE_SWEEP_DEG_def
        float_of_int_exact)


lemma abs_le_D: "\<bar>a - b\<bar> \<le> (c::real) \<Longrightarrow> a - b \<le> c \<and> b - a \<le> c"
  by (auto simp add: abs_le_iff)

lemma rounded_lower_bound:
  fixes t u :: real
  assumes tu: "\<bar>t - u\<bar> \<le> u / 2 ^ 24" and ul: "1 / 8000 \<le> u"
  shows "1 / 2 ^ 14 \<le> t"
proof -
  have "u - t \<le> u / 16777216" using abs_le_D [OF tu] by simp
  then show ?thesis using ul by simp
qed

lemma angle_error_estimate:
  fixes t u p a :: real
  assumes tu: "\<bar>t - u\<bar> \<le> u / 2 ^ 24" and pt: "\<bar>p - t * 270\<bar> \<le> t * 270 / 2 ^ 24"
    and ap: "\<bar>a - (135 + p)\<bar> \<le> (135 + p) / 2 ^ 24" and t1: "t \<le> 1" and u: "0 \<le> u" "u \<le> 1"
  shows "\<bar>a - (135 + u * 270)\<bar> \<le> 1 / 2 ^ 14"
proof -
  have 1: "t - u \<le> u / 16777216" "u - t \<le> u / 16777216" using abs_le_D [OF tu] by simp_all
  have 2: "p - t * 270 \<le> t * 270 / 16777216" "t * 270 - p \<le> t * 270 / 16777216"
    using abs_le_D [OF pt] by simp_all
  have 3: "a - (135 + p) \<le> 135 / 16777216 + p / 16777216"
    "(135 + p) - a \<le> 135 / 16777216 + p / 16777216"
    using abs_le_D [OF ap] by (simp_all add: add_divide_distrib)
  have 4: "p \<le> 271" using 2 t1 by linarith
  have 5: "t * 270 - u * 270 \<le> 270 / 16777216" "u * 270 - t * 270 \<le> 270 / 16777216"
    using 1 u by linarith+
  have 6: "p - t * 270 \<le> 270 / 16777216" "t * 270 - p \<le> 270 / 16777216"
    using 2 t1 by linarith+
  have 7: "a - (135 + p) \<le> 406 / 16777216" "(135 + p) - a \<le> 406 / 16777216"
    using 3 4 by linarith+
  have 8: "a - (135 + u * 270) \<le> 1 / 2 ^ 14"
    using 5 6 7 by simp
  have 9: "- (a - (135 + u * 270)) \<le> 1 / 2 ^ 14"
    using 5 6 7 by simp
  show ?thesis using 8 9 by (rule abs_leI)
qed

lemma needle_angle_deg_accuracy:
  "\<bar>needle_angle_deg m - (135 + real_of_int (sint (clamp_rpm m)) / 8000 * 270)\<bar> \<le> 1 / 2 ^ 14"
proof -
  let ?c = "sint (clamp_rpm m)"
  define u where "u = real_of_int ?c / 8000"
  define t where "t = fl u"
  define p where "p = fl (t * 270)"
  have r: "0 \<le> ?c" "?c \<le> 8000" using clamp_rpm_range [of m] by simp_all
  have u: "0 \<le> u" "u \<le> 1" using r by (simp_all add: u_def del: of_int_sint)
  have a: "needle_angle_deg m = fl (135 + p)"
    by (simp add: needle_angle_deg_eq needle_t_eq p_def t_def u_def del: of_int_sint)
  show ?thesis
  proof (cases "?c = 0")
    case True
    then have "u = 0" by (simp add: u_def del: of_int_sint)
    then have "fl (135 + p) = 135"
      using fl_of_int [of 135] by (simp add: p_def t_def fl_0)
    then show ?thesis using True a by (simp del: of_int_sint)
  next
    case False
    then have "1 \<le> ?c" using r by linarith
    then have "1 \<le> real_of_int ?c" by (simp only: of_int_1_le_iff)
    then have ul: "1 / 8000 \<le> u" by (simp add: u_def del: of_int_sint)
    have "2 powi (- 126) \<le> \<bar>u\<bar>" using ul by (intro normal_range) simp
    from fl_rel_error [OF this] have tu: "\<bar>t - u\<bar> \<le> u / 2 ^ 24"
      using u by (simp add: t_def)
    have t1: "t \<le> 1" using fl_le_1 [OF u] by (simp add: t_def)
    have tl: "1 / 2 ^ 14 \<le> t" using tu ul by (rule rounded_lower_bound)
    have "2 powi (- 126) \<le> \<bar>t * 270\<bar>" using tl by (intro normal_range) simp
    from fl_rel_error [OF this] have pt: "\<bar>p - t * 270\<bar> \<le> t * 270 / 2 ^ 24"
      using tl by (simp add: p_def)
    have p0: "0 \<le> p" using tl by (simp add: p_def fl_nonneg)
    have "2 powi (- 126) \<le> \<bar>135 + p\<bar>" using p0 by (intro normal_range) simp
    from fl_rel_error [OF this] have ap: "\<bar>fl (135 + p) - (135 + p)\<bar> \<le> (135 + p) / 2 ^ 24"
      using p0 by simp
    have "\<bar>fl (135 + p) - (135 + u * 270)\<bar> \<le> 1 / 2 ^ 14"
      using tu pt ap t1 u by (rule angle_error_estimate)
    then show ?thesis by (simp add: a u_def del: of_int_sint)
  qed
qed

text \<open>
  C1. For every measurement the needle angle is the affine map
  \<open>135 + t * 270\<close> of \<open>t = clamp(m, 0, 8000) / 8000\<close>, evaluated in binary32:
  the two divisions of the code (by 1000, then by 8) and its second clamp yield
  exactly the rounded quotient by 8000, and the angle differs from the exact real
  value of the map by at most \<open>1 / 2 ^ 14\<close> of a degree. At 0 the angle is
  135 degrees, at 4000 \<open>t\<close> is one half and the angle 270 degrees, at 8000 the
  angle is 405 degrees, which is 45 degrees after a full turn; these are exact.
\<close>

theorem needle_angle_is_affine_in_clamped_measurement:
  "needle_t m = fl (real_of_int (sint (clamp_rpm m)) / 8000)
   \<and> needle_angle_deg m = fl (135 + fl (needle_t m * 270))
   \<and> \<bar>needle_angle_deg m - (135 + real_of_int (sint (clamp_rpm m)) / 8000 * 270)\<bar> \<le> 1 / 2 ^ 14
   \<and> needle_angle_deg 0 = 135
   \<and> needle_t 4000 = 1 / 2
   \<and> needle_angle_deg 4000 = 270
   \<and> needle_angle_deg 8000 = 405
   \<and> needle_angle_deg 8000 - 360 = 45"
proof -
  have a0: "needle_angle_deg 0 = 135" by code_simp
  have t4: "needle_t 4000 = 1 / 2" by code_simp
  have a4: "needle_angle_deg 4000 = 270" by code_simp
  have a8: "needle_angle_deg 8000 = 405" by code_simp
  show ?thesis
    using needle_t_eq [of m] needle_angle_deg_eq [of m] needle_angle_deg_accuracy [of m]
    by (simp only: a0 t4 a4 a8) simp
qed


section \<open>The needle radii\<close>

lemma abs_sdiv_2: "\<bar>k sdiv 2\<bar> = \<bar>k::int\<bar> div 2"
  by (cases "k = 0") (simp_all add: signed_divide_int_def abs_mult abs_sgn_eq)

lemma sint_sdiv_2_bounds:
  fixes d :: lv_coord_t
  shows "\<bar>sint d sdiv 2\<bar> \<le> 16384"
proof -
  have "- 32768 \<le> sint d" "sint d < 32768"
    using sint_ge [of d] sint_lt [of d] by simp_all
  then have "\<bar>sint d\<bar> div 2 \<le> 16384" by linarith
  then show ?thesis by (simp only: abs_sdiv_2)
qed

lemma sint_coord_div_2: "sint (coord_div d 2) = sint d sdiv 2"
proof -
  have "- (2 ^ 15) \<le> sint d sdiv 2" "sint d sdiv 2 < 2 ^ 15"
    using sint_sdiv_2_bounds [of d] by simp_all
  then have "signed_take_bit 15 (sint d sdiv 2) = sint d sdiv 2"
    by (rule signed_take_bit_int_eq_self)
  then show ?thesis by (simp add: coord_div_def sint_sbintrunc')
qed

lemma half_literal: "fl (1 / 2) = 1 / 2"
  using fl_exact [of 1 "- 1"] by simp

lemma needle_base_r_eq: "needle_base_r d = real_of_int (sint d sdiv 2) - 7"
proof -
  let ?r = "sint d sdiv 2"
  have b: "\<bar>?r\<bar> \<le> 16384" by (rule sint_sdiv_2_bounds)
  then have 1: "float_of_int ?r = of_int ?r" by (intro float_of_int_exact) simp
  have 2: "fmul (float_of_int ARC_WIDTH) (fl (1 / 2)) = 7"
    using fl_of_int [of 7] by (simp add: fmul_def ARC_WIDTH_def float_of_int_exact half_literal)
  have "fl (real_of_int (?r - 7)) = real_of_int (?r - 7)"
    using b by (intro fl_of_int) simp
  then show ?thesis
    by (simp add: needle_base_r_def Let_def sint_coord_div_2 1 2 fsub_def del: of_int_sint)
qed


lemma outer_ratio_literal: "NEEDLE_OUTER_RATIO = 3 / 4"
  using fl_exact [of 3 "- 2"] by (simp add: NEEDLE_OUTER_RATIO_def)

lemma inner_ratio_literal: "NEEDLE_INNER_RATIO = 13421773 / 67108864"
  unfolding NEEDLE_INNER_RATIO_def by code_simp

lemma fl_three_quarters:
  assumes "\<bar>n\<bar> \<le> 2 ^ 20"
  shows "fl (real_of_int n * (3 / 4)) = real_of_int n * (3 / 4)"
proof -
  have "\<bar>3 * n\<bar> \<le> 2 ^ 24" using assms by simp
  from fl_exact [OF this, of "- 2"] show ?thesis by (simp add: mult.commute)
qed

lemma fl_three_quarters_neq:
  assumes "1 / 2 ^ 13 \<le> \<bar>x\<bar>"
  shows "fl (x * (3 / 4)) \<noteq> fl x"
proof
  assume eq: "fl (x * (3 / 4)) = fl x"
  have "2 powi (- 126) \<le> \<bar>x\<bar>" using assms by (intro normal_range) simp
  from fl_rel_error [OF this] have 1: "\<bar>fl x - x\<bar> \<le> \<bar>x\<bar> / 2 ^ 24" .
  have "2 powi (- 126) \<le> \<bar>x * (3 / 4)\<bar>" using assms by (intro normal_range) (simp add: abs_mult)
  from fl_rel_error [OF this, unfolded eq]
  have 2: "\<bar>fl x - x * (3 / 4)\<bar> \<le> \<bar>x\<bar> * (3 / 4) / 2 ^ 24"
    by (simp add: abs_mult)
  have a: "fl x - x \<le> \<bar>x\<bar> / 16777216" "x - fl x \<le> \<bar>x\<bar> / 16777216"
    using abs_le_D [OF 1] by simp_all
  have b: "fl x - x * (3 / 4) \<le> \<bar>x\<bar> * (3 / 4) / 16777216"
    "x * (3 / 4) - fl x \<le> \<bar>x\<bar> * (3 / 4) / 16777216"
    using abs_le_D [OF 2] by simp_all
  have "0 < \<bar>x\<bar>" using assms by (simp add: order_less_le_trans [of 0 "1 / 2 ^ 13"])
  then show False using a b by (cases "0 \<le> x") (simp_all add: abs_if)
qed


lemma needle_radii_eq:
  "needle_radii d = (fl (needle_base_r d * NEEDLE_INNER_RATIO), fl (needle_base_r d * NEEDLE_OUTER_RATIO))"
  by (simp add: needle_radii_def Let_def fmul_def)

lemma needle_base_r_int: "needle_base_r d = real_of_int (sint d sdiv 2 - 7)"
  by (simp add: needle_base_r_eq del: of_int_sint)

lemma needle_outer_r_exact: "snd (needle_radii d) = needle_base_r d * (3 / 4)"
proof -
  have "\<bar>sint d sdiv 2 - 7\<bar> \<le> 2 ^ 20" using sint_sdiv_2_bounds [of d] by simp
  from fl_three_quarters [OF this] show ?thesis
    by (simp only: needle_radii_eq snd_conv outer_ratio_literal needle_base_r_int)
qed

lemma needle_inner_r_accuracy:
  "\<bar>fst (needle_radii d) - needle_base_r d * (20 / 100)\<bar> \<le> \<bar>needle_base_r d\<bar> / 2 ^ 25"
proof -
  define q where "q = needle_base_r d"
  define x where "x = q * (13421773 / 67108864)"
  have f: "fst (needle_radii d) = fl x"
    by (simp add: needle_radii_eq inner_ratio_literal x_def q_def)
  show ?thesis
  proof (cases "sint d sdiv 2 - 7 = 0")
    case True
    then have "q = 0" unfolding q_def needle_base_r_int by simp
    then show ?thesis using f by (simp add: x_def fl_0 q_def)
  next
    case False
    then have "1 \<le> \<bar>sint d sdiv 2 - 7\<bar>" by linarith
    then have "1 \<le> real_of_int \<bar>sint d sdiv 2 - 7\<bar>" by (simp only: of_int_1_le_iff)
    then have q1: "1 \<le> \<bar>q\<bar>" unfolding q_def needle_base_r_int by (simp only: of_int_abs)
    have ax: "\<bar>x\<bar> = \<bar>q\<bar> * (13421773 / 67108864)" by (simp add: x_def abs_mult)
    have "2 powi (- 126) \<le> \<bar>x\<bar>" using q1 by (intro normal_range) (simp add: ax)
    from fl_rel_error [OF this] have "\<bar>fl x - x\<bar> \<le> \<bar>q\<bar> * (13421773 / 67108864) / 2 ^ 24"
      by (simp only: ax)
    from abs_le_D [OF this]
    have e: "fl x - q * (13421773 / 67108864) \<le> \<bar>q\<bar> * (13421773 / 67108864) / 16777216"
      "q * (13421773 / 67108864) - fl x \<le> \<bar>q\<bar> * (13421773 / 67108864) / 16777216"
      by (simp_all add: x_def)
    have 1: "fl x - q * (20 / 100) \<le> \<bar>q\<bar> / 2 ^ 25"
      using e by (cases "0 \<le> q") (simp_all add: abs_if)
    have 2: "- (fl x - q * (20 / 100)) \<le> \<bar>q\<bar> / 2 ^ 25"
      using e by (cases "0 \<le> q") (simp_all add: abs_if)
    show ?thesis unfolding f q_def [symmetric] using 1 2 by (rule abs_leI)
  qed
qed

lemma needle_inner_r_not_from_outer:
  assumes "sint d sdiv 2 \<noteq> 7"
  shows "fst (needle_radii d) \<noteq> fl (snd (needle_radii d) * NEEDLE_INNER_RATIO)"
proof -
  define q where "q = needle_base_r d"
  define x where "x = q * (13421773 / 67108864)"
  have "1 \<le> \<bar>sint d sdiv 2 - 7\<bar>" using assms by linarith
  then have "1 \<le> real_of_int \<bar>sint d sdiv 2 - 7\<bar>" by (simp only: of_int_1_le_iff)
  then have q1: "1 \<le> \<bar>q\<bar>" unfolding q_def needle_base_r_int by (simp only: of_int_abs)
  have ax: "\<bar>x\<bar> = \<bar>q\<bar> * (13421773 / 67108864)" by (simp add: x_def abs_mult)
  have "1 / 2 ^ 13 \<le> \<bar>x\<bar>" using q1 by (simp add: ax)
  from fl_three_quarters_neq [OF this] have A: "fl (x * (3 / 4)) \<noteq> fl x" .
  have B: "fst (needle_radii d) = fl x"
    by (simp add: needle_radii_eq inner_ratio_literal x_def q_def)
  have C: "snd (needle_radii d) * NEEDLE_INNER_RATIO = x * (3 / 4)"
    by (simp add: needle_outer_r_exact inner_ratio_literal x_def q_def)
  show ?thesis unfolding B C using A by (rule not_sym)
qed

text \<open>
  C8. The radii are derived in this order: the base radius is half the gauge
  diameter (integer division) minus half the arc width, \<open>14 / 2\<close>; the inner
  radius is the base radius times \<open>0.20f\<close>, taken before the base radius is
  rescaled; the outer radius is the base radius times \<open>0.75f\<close>. So the inner
  radius is \<open>(diameter / 2 - 7) * 0.20\<close> up to binary32 rounding, and it is not
  the final outer radius times \<open>0.20f\<close>, unless the base radius is zero.
\<close>

theorem needle_radii_derived_in_source_order:
  "needle_base_r d = real_of_int (sint d sdiv 2) - 14 / 2
   \<and> needle_radii d
       = (fl (needle_base_r d * NEEDLE_INNER_RATIO), fl (needle_base_r d * NEEDLE_OUTER_RATIO))
   \<and> snd (needle_radii d) = needle_base_r d * (75 / 100)
   \<and> \<bar>fst (needle_radii d) - needle_base_r d * (20 / 100)\<bar> \<le> \<bar>needle_base_r d\<bar> / 2 ^ 25
   \<and> (sint d sdiv 2 \<noteq> 7 \<longrightarrow>
         fst (needle_radii d) \<noteq> fl (snd (needle_radii d) * NEEDLE_INNER_RATIO))"
  using needle_base_r_eq [of d] needle_radii_eq [of d] needle_outer_r_exact [of d]
    needle_inner_r_accuracy [of d] needle_inner_r_not_from_outer [of d]
  by (simp del: of_int_sint)

theorem needle_radii_derived_in_source_order_witness:
  "sint (370 :: lv_coord_t) sdiv 2 \<noteq> 7
   \<and> needle_base_r 370 = 178
   \<and> needle_radii 370 = (9332327 / 262144, 267 / 2)
   \<and> fl (267 / 2 * NEEDLE_INNER_RATIO) = 6999245 / 262144
   \<and> fst (needle_radii 370) \<noteq> fl (snd (needle_radii 370) * NEEDLE_INNER_RATIO)"
proof -
  have h: "sint (370 :: lv_coord_t) sdiv 2 \<noteq> 7" by simp
  have b: "needle_base_r 370 = 178" by (simp add: needle_base_r_eq)
  have r: "needle_radii 370 = (9332327 / 262144, 267 / 2)" by code_simp
  have o: "fl (267 / 2 * NEEDLE_INNER_RATIO) = 6999245 / 262144" by code_simp
  show ?thesis
    using needle_radii_derived_in_source_order [of 370] h b r o by simp
qed

end
